theory Spec2Isabelle
  imports Main "HOL-Library.Multiset"
begin

section \<open>Data model of EntityManager.js\<close>

text \<open>
  Identifiers and attribute values are JavaScript numbers. The model keeps the numbers the
  manager computes with: the integers that a JavaScript number (a double) represents, and
  \<open>-Infinity\<close>, which is what \<open>Math.max()\<close> returns when it is given no argument.
  Every integer from \<open>-2^53\<close> to \<open>2^53\<close> is such a number; beyond, only multiples
  of the spacing of the doubles are (the even integers up to \<open>2^54\<close> in magnitude).
  Keys of the entity map are the identifiers themselves: the conversion of a number to a
  property name is injective on these values.
\<close>

datatype jsnum = NegInfinity | Fin int

text \<open>An object of attributes: property name to value. A missing property reads as \<open>undefined\<close>.\<close>

type_synonym fields = "string \<rightharpoonup> jsnum"

text \<open>
  The tree branch: the id array under the schema's \<open>arrName\<close> and the entity map under
  its \<open>mapName\<close>. The two property names are the two fields of the record.
\<close>

record branch =
  idArr :: "jsnum list"
  entityMap :: "jsnum \<rightharpoonup> fields"

text \<open>
  The updater of an UPDATE action is a function or an object (\<open>typeof ... === 'function'\<close>).
  The function is applied to \<open>entityMap[_id]\<close>, which is \<open>undefined\<close> for an id the map
  does not hold.
\<close>

datatype updater = MergePatch fields | ReplaceFn "fields option \<Rightarrow> fields"

text \<open>The mutation records, by their \<open>type\<close>; \<open>OTHER\<close> is any type the switches do not name.\<close>

datatype action =
    CREATE fields
  | UPDATE "jsnum list" updater
  | DELETE "jsnum list"
  | ORDER "string list"
  | OTHER

text \<open>The manager: the constructor's two fields and the \<open>idAttribute\<close> of its schema.\<close>

record manager =
  tree :: branch
  mutations :: "action list"
  idAttribute :: string

definition EntityManager :: "branch \<Rightarrow> string \<Rightarrow> manager" where
  "EntityManager t idA = \<lparr>tree = t, mutations = [], idAttribute = idA\<rparr>"

section \<open>Accessors\<close>

definition getEntityTree :: "manager \<Rightarrow> branch" where
  "getEntityTree m = tree m"

definition getEntityMap :: "manager \<Rightarrow> (jsnum \<rightharpoonup> fields)" where
  "getEntityMap m = entityMap (getEntityTree m)"

definition getIdAttribute :: "manager \<Rightarrow> string" where
  "getIdAttribute m = idAttribute m"

definition getIdArray :: "manager \<Rightarrow> jsnum list" where
  "getIdArray m = idArr (getEntityTree m)"

text \<open>\<open>Object.assign(target, undefined)\<close> copies nothing.\<close>

definition own_fields :: "fields option \<Rightarrow> fields" where
  "own_fields src = (case src of None \<Rightarrow> Map.empty | Some a \<Rightarrow> a)"

text \<open>\<open>Object.assign({[idAttribute]: id}, entityMap[id])\<close>: the attributes are written over the id.\<close>

definition getFullEntity :: "manager \<Rightarrow> jsnum \<Rightarrow> fields" where
  "getFullEntity m i = [getIdAttribute m \<mapsto> i] ++ own_fields (getEntityMap m i)"

definition getFullEntities :: "manager \<Rightarrow> fields list" where
  "getFullEntities m = map (getFullEntity m) (getIdArray m)"

section \<open>Id allocation\<close>

text \<open>
  \<open>Math.max\<close> starts from \<open>-Infinity\<close> and keeps the larger value of each argument in turn.
\<close>

fun jsnum_less :: "jsnum \<Rightarrow> jsnum \<Rightarrow> bool" where
  "jsnum_less (Fin a) (Fin b) = (a < b)"
| "jsnum_less NegInfinity (Fin b) = True"
| "jsnum_less _ NegInfinity = False"

definition js_max :: "jsnum \<Rightarrow> jsnum \<Rightarrow> jsnum" where
  "js_max highest x = (if jsnum_less highest x then x else highest)"

definition Math_max :: "jsnum list \<Rightarrow> jsnum" where
  "Math_max xs = foldl js_max NegInfinity xs"

text \<open>
  \<open>x + 1\<close> on doubles. \<open>-Infinity + 1\<close> is \<open>-Infinity\<close>. From \<open>-2^53\<close> up to
  \<open>2^53 - 1\<close> the sum is exact. Up to \<open>2^54\<close> in magnitude the doubles are the even
  integers, \<open>n + 1\<close> lies halfway between \<open>n\<close> and \<open>n + 2\<close>, and the sum rounds to the
  one of the two whose significand \<open>n / 2\<close> is even. Beyond, the spacing is 4 or more and
  the sum rounds back to \<open>n\<close>.
\<close>

fun plus_one :: "jsnum \<Rightarrow> jsnum" where
  "plus_one NegInfinity = NegInfinity"
| "plus_one (Fin n) =
     (if - 9007199254740992 \<le> n \<and> n < 9007199254740992 then Fin (n + 1)
      else if - 18014398509481984 \<le> n \<and> n < 18014398509481984
        then (if even (n div 2) then Fin n else Fin (n + 2))
      else Fin n)"

text \<open>\<open>nextId\<close> reads \<open>this.getIdArray()\<close>, the id array of the manager's own tree.\<close>

definition nextId :: "manager \<Rightarrow> jsnum" where
  "nextId m = plus_one (Math_max (getIdArray m))"

section \<open>Sorting\<close>

text \<open>
  Modelled from the spec: \<open>sortByAll\<close> is imported from lodash and is not part of the
  sources. The specification describes it as a sort of the full-entity views by the sort
  keys that is stable, ascending, and applies the keys left to right as tie-breakers.
  Numbers ascend in their numeric order and a missing property (\<open>undefined\<close>) comes
  after every number, as lodash's ascending comparison places it. A sort key reads an own
  property of the entity: keys that name a member every object inherits are not modelled.
\<close>

fun value_less :: "jsnum option \<Rightarrow> jsnum option \<Rightarrow> bool" where
  "value_less (Some a) (Some b) = jsnum_less a b"
| "value_less (Some a) None = True"
| "value_less None _ = False"

fun criteria_less :: "jsnum option list \<Rightarrow> jsnum option list \<Rightarrow> bool" where
  "criteria_less (x # xs) (y # ys) = (value_less x y \<or> (x = y \<and> criteria_less xs ys))"
| "criteria_less _ _ = False"

definition criteria :: "string list \<Rightarrow> fields \<Rightarrow> jsnum option list" where
  "criteria props e = map e props"

fun insert_entity :: "string list \<Rightarrow> fields \<Rightarrow> fields list \<Rightarrow> fields list" where
  "insert_entity props e [] = [e]"
| "insert_entity props e (x # xs) =
     (if criteria_less (criteria props x) (criteria props e)
      then x # insert_entity props e xs
      else e # x # xs)"

fun sortByAll :: "fields list \<Rightarrow> string list \<Rightarrow> fields list" where
  "sortByAll [] props = []"
| "sortByAll (e # es) props = insert_entity props e (sortByAll es props)"

section \<open>Reduction\<close>

text \<open>
  The projection \<open>entity[this.getIdAttribute()]\<close> of the ORDER case. Every entity it
  is applied to holds its id attribute (lemma \<open>sorted_entities_have_id\<close> below).
\<close>

definition entity_id :: "manager \<Rightarrow> fields \<Rightarrow> jsnum" where
  "entity_id m e = the (e (getIdAttribute m))"

fun reduceIdArray :: "manager \<Rightarrow> jsnum list \<Rightarrow> action \<Rightarrow> jsnum list" where
  "reduceIdArray m ids (CREATE props) = ids @ [nextId m]"
| "reduceIdArray m ids (DELETE idsToDelete) = filter (\<lambda>i. i \<notin> set idsToDelete) ids"
| "reduceIdArray m ids (ORDER props) = map (entity_id m) (sortByAll (getFullEntities m) props)"
| "reduceIdArray m ids _ = ids"

text \<open>\<open>Object.assign({}, entity, patch)\<close> for an object updater, the function itself otherwise.\<close>

fun mapper :: "updater \<Rightarrow> fields option \<Rightarrow> fields" where
  "mapper (ReplaceFn f) entity = f entity"
| "mapper (MergePatch patch) entity = own_fields entity ++ patch"

text \<open>The \<open>forEach\<close> that fills \<open>updatedMap\<close>, reading the incoming \<open>entityMap\<close> at every id.\<close>

definition updatedMap :: "updater \<Rightarrow> (jsnum \<rightharpoonup> fields) \<Rightarrow> jsnum list \<Rightarrow> (jsnum \<rightharpoonup> fields)" where
  "updatedMap u em ids = foldl (\<lambda>um i. um(i \<mapsto> mapper u (em i))) Map.empty ids"

text \<open>
  Modelled from the spec: \<open>omit\<close> is imported from lodash and is not part of the
  sources. A Delete record removes every listed id from the attributes map:
  \<open>omit(object, keys)\<close> is the object without the listed keys.
\<close>

definition omit :: "(jsnum \<rightharpoonup> fields) \<Rightarrow> jsnum list \<Rightarrow> (jsnum \<rightharpoonup> fields)" where
  "omit em ids = (\<lambda>k. if k \<in> set ids then None else em k)"

fun reduceEntityMap :: "manager \<Rightarrow> (jsnum \<rightharpoonup> fields) \<Rightarrow> action \<Rightarrow> (jsnum \<rightharpoonup> fields)" where
  "reduceEntityMap m em (CREATE props) = em(nextId m \<mapsto> props)"
| "reduceEntityMap m em (UPDATE ids u) = em ++ updatedMap u em ids"
| "reduceEntityMap m em (DELETE idsToDelete) = omit em idsToDelete"
| "reduceEntityMap m em _ = em"

text \<open>The callback of \<open>this.mutations.reduce\<close>: both sub-reductions on the running state.\<close>

definition reduce_step :: "manager \<Rightarrow> branch \<Rightarrow> action \<Rightarrow> branch" where
  "reduce_step m state a =
     \<lparr>idArr = reduceIdArray m (idArr state) a,
      entityMap = reduceEntityMap m (entityMap state) a\<rparr>"

definition reduce :: "manager \<Rightarrow> branch" where
  "reduce m = foldl (reduce_step m) (getEntityTree m) (mutations m)"

section \<open>Writes\<close>

text \<open>The single-entity view built by \<open>new Entity(manager, props)\<close>: its snapshot of properties.\<close>

datatype entity = Entity fields

definition create :: "manager \<Rightarrow> fields \<Rightarrow> manager \<times> entity" where
  "create m props = (m\<lparr>mutations := mutations m @ [CREATE props]\<rparr>, Entity props)"

definition setOrder :: "manager \<Rightarrow> string list \<Rightarrow> manager" where
  "setOrder m arg = m\<lparr>mutations := mutations m @ [ORDER arg]\<rparr>"

text \<open>
  Modelled from the spec: QuerySet.js is not part of the sources. Its \<open>delete()\<close> appends
  a Delete record scoped to the QuerySet's current ids to the owning manager's log, and its
  \<open>update(updater)\<close> appends an Update record scoped to those ids and the given updater.
\<close>

definition QuerySet_delete :: "manager \<Rightarrow> jsnum list \<Rightarrow> manager" where
  "QuerySet_delete m ids = m\<lparr>mutations := mutations m @ [DELETE ids]\<rparr>"

definition QuerySet_update :: "manager \<Rightarrow> jsnum list \<Rightarrow> updater \<Rightarrow> manager" where
  "QuerySet_update m ids u = m\<lparr>mutations := mutations m @ [UPDATE ids u]\<rparr>"

text \<open>The manager's own \<open>delete\<close> and \<open>update\<close>: on the QuerySet over \<open>getIdArray()\<close>.\<close>

definition delete :: "manager \<Rightarrow> manager" where
  "delete m = QuerySet_delete m (getIdArray m)"

definition update :: "manager \<Rightarrow> updater \<Rightarrow> manager" where
  "update m u = QuerySet_update m (getIdArray m) u"

section \<open>Lookup\<close>

text \<open>
  Modelled from the spec: QuerySet.js is not part of the sources. \<open>exists()\<close> is true iff
  the sequence of the QuerySet is non-empty; the manager asks the QuerySet over
  \<open>getIdArray()\<close>.
\<close>

definition exists :: "manager \<Rightarrow> bool" where
  "exists m = (getIdArray m \<noteq> [])"

text \<open>
  Modelled from the spec: utils.js is not part of the sources. \<open>match(lookup, entity)\<close>
  is true iff every key of the lookup is present in the entity with an equal value.
\<close>

definition match :: "fields \<Rightarrow> fields \<Rightarrow> bool" where
  "match lookupObj e = (\<forall>k \<in> dom lookupObj. e k = lookupObj k)"

text \<open>
  The two failures of \<open>get\<close>: \<open>EmptyStoreError\<close> is the error with the message
  ``Tried getting from empty QuerySet'', \<open>EntityNotFoundError\<close> the one with
  ``Entity not found when calling get method''.
\<close>

datatype error = EmptyStoreError | EntityNotFoundError

definition get :: "manager \<Rightarrow> fields \<Rightarrow> error + entity" where
  "get m lookupObj =
     (if \<not> exists m then Inl EmptyStoreError
      else case lookupObj (getIdAttribute m) of
        Some i \<Rightarrow> Inr (Entity (getFullEntity m i))
      | None \<Rightarrow>
          (case List.find (\<lambda>e. match lookupObj e) (getFullEntities m) of
             None \<Rightarrow> Inl EntityNotFoundError
           | Some found \<Rightarrow> Inr (Entity found)))"

section \<open>The branch-state invariant\<close>

definition invariant :: "branch \<Rightarrow> bool" where
  "invariant s = (dom (entityMap s) = set (idArr s) \<and> distinct (idArr s))"

text \<open>
  The attributes stored for the ids of the sequence do not hold the id attribute itself
  (the data model keeps the id out of the attribute records).
\<close>

definition attributes_exclude_id :: "manager \<Rightarrow> bool" where
  "attributes_exclude_id m =
     list_all (\<lambda>i. getIdAttribute m \<notin> dom (own_fields (getEntityMap m i))) (getIdArray m)"

text \<open>
  The full entity of every id of the sequence reads that id under the id attribute: the
  attributes stored for the id do not hold the id attribute, or hold it with the id itself.
\<close>

definition full_entities_keep_id :: "manager \<Rightarrow> bool" where
  "full_entities_keep_id m =
     list_all (\<lambda>i. getFullEntity m i (getIdAttribute m) = Some i) (getIdArray m)"

section \<open>Vocabulary of the statements\<close>

text \<open>Ascending order of two entities under the sort keys: the second is not below the first.\<close>

definition ascending :: "string list \<Rightarrow> fields \<Rightarrow> fields \<Rightarrow> bool" where
  "ascending props a b = (\<not> criteria_less (criteria props b) (criteria props a))"

text \<open>The sort criteria of an id: those of its full entity in the manager's own tree.\<close>

definition sort_criteria :: "manager \<Rightarrow> string list \<Rightarrow> jsnum \<Rightarrow> jsnum option list" where
  "sort_criteria m props i = criteria props (getFullEntity m i)"

text \<open>
  A session is a sequence of write calls on the manager: \<open>create\<close>, \<open>setOrder\<close>,
  the manager's own \<open>update\<close> and \<open>delete\<close>, and the ones of a narrower QuerySet or of
  a single Entity, which carry their ids.
\<close>

datatype write_call =
    Call_create fields
  | Call_setOrder "string list"
  | Call_update updater
  | Call_delete
  | Call_QuerySet_update "jsnum list" updater
  | Call_QuerySet_delete "jsnum list"

fun perform :: "manager \<Rightarrow> write_call \<Rightarrow> manager" where
  "perform m (Call_create props) = fst (create m props)"
| "perform m (Call_setOrder arg) = setOrder m arg"
| "perform m (Call_update u) = update m u"
| "perform m Call_delete = delete m"
| "perform m (Call_QuerySet_update ids u) = QuerySet_update m ids u"
| "perform m (Call_QuerySet_delete ids) = QuerySet_delete m ids"

definition session :: "manager \<Rightarrow> write_call list \<Rightarrow> manager" where
  "session m calls = foldl perform m calls"

text \<open>The record a write call pushes on the log.\<close>

fun recorded :: "manager \<Rightarrow> write_call \<Rightarrow> action" where
  "recorded m (Call_create props) = CREATE props"
| "recorded m (Call_setOrder arg) = ORDER arg"
| "recorded m (Call_update u) = UPDATE (getIdArray m) u"
| "recorded m Call_delete = DELETE (getIdArray m)"
| "recorded m (Call_QuerySet_update ids u) = UPDATE ids u"
| "recorded m (Call_QuerySet_delete ids) = DELETE ids"

section \<open>Example branches\<close>

definition lone_branch :: branch where
  "lone_branch = \<lparr>idArr = [Fin 1], entityMap = [Fin 1 \<mapsto> [''a'' \<mapsto> Fin 0]]\<rparr>"

definition empty_branch :: branch where
  "empty_branch = \<lparr>idArr = [], entityMap = Map.empty\<rparr>"

definition pair_branch :: branch where
  "pair_branch =
     \<lparr>idArr = [Fin 1, Fin 2],
      entityMap = [Fin 1 \<mapsto> [''a'' \<mapsto> Fin 1, ''b'' \<mapsto> Fin 2],
                   Fin 2 \<mapsto> [''a'' \<mapsto> Fin 4, ''b'' \<mapsto> Fin 5]]\<rparr>"

definition shelf :: branch where
  "shelf =
     \<lparr>idArr = [Fin 1, Fin 2, Fin 3],
      entityMap = [Fin 1 \<mapsto> [''a'' \<mapsto> Fin 5], Fin 2 \<mapsto> [''a'' \<mapsto> Fin 3],
                   Fin 3 \<mapsto> [''a'' \<mapsto> Fin 5]]\<rparr>"

text \<open>Two \<open>create\<close> calls in one session on a branch that holds the id 1.\<close>

definition two_creates :: manager where
  "two_creates =
     fst (create (fst (create (EntityManager lone_branch ''id'') [''a'' \<mapsto> Fin 1]))
       [''a'' \<mapsto> Fin 2])"

text \<open>The same session, taken for the invariant.\<close>

definition create_create :: manager where
  "create_create =
     session (EntityManager lone_branch ''id'')
       [Call_create [''a'' \<mapsto> Fin 1], Call_create [''a'' \<mapsto> Fin 2]]"

text \<open>One \<open>create\<close> on the empty branch.\<close>

definition first_create :: manager where
  "first_create = fst (create (EntityManager empty_branch ''id'') [''a'' \<mapsto> Fin 1])"

text \<open>The entity 1 is deleted and then updated through the same Entity view.\<close>

definition delete_then_update :: manager where
  "delete_then_update =
     QuerySet_update (QuerySet_delete (EntityManager pair_branch ''id'') [Fin 1]) [Fin 1]
       (MergePatch [''a'' \<mapsto> Fin 9])"

text \<open>
  The branch that the code returns for \<open>create({id: 1, a: 2})\<close> and \<open>reduce()\<close> on the
  branch with the single id 1: the payload is stored as it is, under the allocated id 2.
\<close>

definition carried_id_branch :: branch where
  "carried_id_branch =
     reduce (fst (create (EntityManager lone_branch ''id'') [''id'' \<mapsto> Fin 1, ''a'' \<mapsto> Fin 2]))"

text \<open>A branch whose entity 1 stores the id attribute 7, a delete queued before a reorder.\<close>

definition relabelled :: manager where
  "relabelled =
     \<lparr>tree = \<lparr>idArr = [Fin 1, Fin 2],
               entityMap = [Fin 1 \<mapsto> [''id'' \<mapsto> Fin 7, ''a'' \<mapsto> Fin 2],
                            Fin 2 \<mapsto> [''a'' \<mapsto> Fin 1]]\<rparr>,
      mutations = [DELETE [Fin 2], ORDER [''a'']],
      idAttribute = ''id''\<rparr>"

text \<open>A create and a delete queued before a reorder.\<close>

definition reshuffled :: manager where
  "reshuffled =
     \<lparr>tree = shelf,
      mutations = [CREATE [''a'' \<mapsto> Fin 0], DELETE [Fin 1], ORDER [''a'']],
      idAttribute = ''id''\<rparr>"

section \<open>Evaluation\<close>

lemmas eval_defs = EntityManager_def create_def setOrder_def QuerySet_update_def QuerySet_delete_def
  update_def delete_def getIdArray_def getEntityMap_def getEntityTree_def getIdAttribute_def
  getFullEntities_def getFullEntity_def own_fields_def criteria_def entity_id_def
  nextId_def Math_max_def js_max_def reduce_def reduce_step_def updatedMap_def omit_def

lemmas example_defs = lone_branch_def empty_branch_def pair_branch_def shelf_def

section \<open>The ascending order is a strict total order\<close>

lemma jsnum_less_irrefl: "\<not> jsnum_less a a"
  by (cases a) simp_all

lemma value_less_irrefl: "\<not> value_less a a"
  by (cases a) (simp_all add: jsnum_less_irrefl)

lemma jsnum_less_asym: "jsnum_less a b \<Longrightarrow> \<not> jsnum_less b a"
  by (cases a; cases b) simp_all

lemma jsnum_less_negtrans: "jsnum_less a c \<Longrightarrow> jsnum_less a b \<or> jsnum_less b c"
  by (cases a; cases b; cases c) auto

lemma value_less_asym: "value_less a b \<Longrightarrow> \<not> value_less b a"
  by (cases a; cases b) (simp_all add: jsnum_less_asym)

lemma value_less_negtrans: "value_less a c \<Longrightarrow> value_less a b \<or> value_less b c"
  using jsnum_less_negtrans by (cases a; cases b; cases c) auto

lemma jsnum_less_total: "jsnum_less a b \<or> a = b \<or> jsnum_less b a"
  by (cases a; cases b) auto

lemma value_less_total: "value_less a b \<or> a = b \<or> value_less b a"
  using jsnum_less_total by (cases a; cases b) auto

lemma criteria_less_irrefl: "\<not> criteria_less c c"
  by (induction c) (simp_all add: value_less_irrefl)

lemma criteria_less_asym:
  "criteria_less (criteria props a) (criteria props b) \<Longrightarrow>
   \<not> criteria_less (criteria props b) (criteria props a)"
  unfolding criteria_def
  by (induction props) (auto simp: value_less_irrefl dest: value_less_asym)

lemma criteria_less_negtrans:
  "criteria_less (criteria props a) (criteria props c) \<Longrightarrow>
   criteria_less (criteria props a) (criteria props b) \<or>
   criteria_less (criteria props b) (criteria props c)"
  unfolding criteria_def
proof (induction props)
  case Nil
  then show ?case by simp
next
  case (Cons p props)
  show ?case
    using Cons value_less_negtrans [of "a p" "c p" "b p"] value_less_total [of "a p" "b p"]
    by auto
qed

section \<open>\<open>sortByAll\<close> permutes, sorts and is stable\<close>

lemma set_insert_entity: "set (insert_entity props e xs) = insert e (set xs)"
  by (induction xs) auto

lemma mset_insert_entity: "mset (insert_entity props e xs) = add_mset e (mset xs)"
  by (induction xs) auto

lemma mset_sortByAll: "mset (sortByAll es props) = mset es"
  by (induction es) (simp_all add: mset_insert_entity)

lemma set_sortByAll: "set (sortByAll es props) = set es"
  using mset_sortByAll [of es props] by (metis set_mset_mset)

lemma sorted_insert_entity:
  "sorted_wrt (ascending props) xs \<Longrightarrow> sorted_wrt (ascending props) (insert_entity props e xs)"
proof (induction xs)
  case Nil
  then show ?case by simp
next
  case (Cons x xs)
  show ?case
  proof (cases "criteria_less (criteria props x) (criteria props e)")
    case True
    then have "ascending props x e"
      by (simp add: ascending_def criteria_less_asym)
    with True Cons show ?thesis
      by (auto simp: set_insert_entity)
  next
    case False
    have "ascending props e y" if "y \<in> set xs" for y
    proof -
      from Cons.prems that have "\<not> criteria_less (criteria props y) (criteria props x)"
        by (simp add: ascending_def)
      with False show ?thesis
        unfolding ascending_def using criteria_less_negtrans by blast
    qed
    with False Cons.prems show ?thesis
      by (simp add: ascending_def)
  qed
qed

lemma sorted_sortByAll: "sorted_wrt (ascending props) (sortByAll es props)"
  by (induction es) (simp_all add: sorted_insert_entity)

lemma filter_insert_entity:
  "filter (\<lambda>x. criteria props x = k) (insert_entity props e xs) =
   filter (\<lambda>x. criteria props x = k) (e # xs)"
  by (induction xs) (auto simp: criteria_less_irrefl)

lemma stable_sortByAll:
  "filter (\<lambda>x. criteria props x = k) (sortByAll es props) =
   filter (\<lambda>x. criteria props x = k) es"
  by (induction es) (simp_all add: filter_insert_entity)

section \<open>Full entities and their ids\<close>

lemma getFullEntity_has_id: "\<exists>v. getFullEntity m i (getIdAttribute m) = Some v"
  by (simp add: getFullEntity_def map_add_def split: option.split)

lemma sorted_entities_have_id:
  assumes "e \<in> set (sortByAll (getFullEntities m) props)"
  shows "\<exists>v. e (getIdAttribute m) = Some v"
proof -
  from assms obtain i where "e = getFullEntity m i"
    by (auto simp: set_sortByAll getFullEntities_def)
  then show ?thesis
    by (simp add: getFullEntity_has_id)
qed

lemma attributes_exclude_id_keeps_id:
  assumes "attributes_exclude_id m"
  shows "full_entities_keep_id m"
proof -
  have "getFullEntity m i (getIdAttribute m) = Some i"
    if "getIdAttribute m \<notin> dom (own_fields (getEntityMap m i))" for i
    using that by (auto simp: getFullEntity_def map_add_def split: option.split)
  with assms show ?thesis
    by (simp add: attributes_exclude_id_def full_entities_keep_id_def list_all_iff)
qed

lemma entity_id_getFullEntity:
  "getFullEntity m i (getIdAttribute m) = Some i \<Longrightarrow> entity_id m (getFullEntity m i) = i"
  by (simp add: entity_id_def)

lemma map_entity_id_getFullEntity:
  "list_all (\<lambda>i. getFullEntity m i (getIdAttribute m) = Some i) ids \<Longrightarrow>
   map (entity_id m) (map (getFullEntity m) ids) = ids"
  by (induction ids) (simp_all add: entity_id_getFullEntity)

lemma getFullEntity_entity_id:
  assumes "full_entities_keep_id m" and "e \<in> set (getFullEntities m)"
  shows "getFullEntity m (entity_id m e) = e"
proof -
  from assms(2) obtain i where i: "i \<in> set (getIdArray m)" and e: "e = getFullEntity m i"
    by (auto simp: getFullEntities_def)
  from assms(1) i have "getFullEntity m i (getIdAttribute m) = Some i"
    by (simp add: full_entities_keep_id_def list_all_iff)
  then show ?thesis
    by (simp add: e entity_id_getFullEntity)
qed

section \<open>The ORDER case of \<open>reduceIdArray\<close>\<close>

text \<open>The running id array \<open>ids\<close> does not occur on the right-hand sides.\<close>

lemma order_ids_full_entities:
  assumes "full_entities_keep_id m"
  shows "map (getFullEntity m) (reduceIdArray m ids (ORDER props)) =
         sortByAll (getFullEntities m) props"
proof -
  have "map (getFullEntity m \<circ> entity_id m) (sortByAll (getFullEntities m) props) =
        map (\<lambda>e. e) (sortByAll (getFullEntities m) props)"
    by (rule map_cong) (simp_all add: set_sortByAll getFullEntity_entity_id [OF assms])
  then show ?thesis by simp
qed

lemma order_ids_mset:
  assumes "full_entities_keep_id m"
  shows "mset (reduceIdArray m ids (ORDER props)) = mset (getIdArray m)"
proof -
  have "mset (map (entity_id m) (sortByAll (getFullEntities m) props)) =
        mset (map (entity_id m) (getFullEntities m))"
    by (simp add: mset_sortByAll)
  also have "map (entity_id m) (getFullEntities m) = getIdArray m"
    using assms
    by (simp only: getFullEntities_def full_entities_keep_id_def map_entity_id_getFullEntity)
  finally show ?thesis by simp
qed

lemma order_ids_sorted:
  assumes "full_entities_keep_id m"
  shows "sorted_wrt (\<lambda>i j. \<not> criteria_less (sort_criteria m props j) (sort_criteria m props i))
           (reduceIdArray m ids (ORDER props))"
proof -
  have "sorted_wrt (ascending props) (map (getFullEntity m) (reduceIdArray m ids (ORDER props)))"
    by (simp only: order_ids_full_entities [OF assms] sorted_sortByAll)
  then show ?thesis
    by (simp only: sorted_wrt_map ascending_def sort_criteria_def)
qed

lemma order_ids_stable:
  assumes "full_entities_keep_id m"
  shows "filter (\<lambda>i. sort_criteria m props i = k) (reduceIdArray m ids (ORDER props)) =
         filter (\<lambda>i. sort_criteria m props i = k) (getIdArray m)"
proof -
  let ?P = "\<lambda>e. criteria props e = k"
  let ?S = "sortByAll (getFullEntities m) props"
  have comp: "(\<lambda>i. sort_criteria m props i = k) = ?P \<circ> getFullEntity m"
    by (simp add: fun_eq_iff sort_criteria_def)
  have "filter (?P \<circ> getFullEntity m) (map (entity_id m) ?S) =
        map (entity_id m) (filter (?P \<circ> getFullEntity m \<circ> entity_id m) ?S)"
    by (simp add: filter_map comp_def)
  also have "filter (?P \<circ> getFullEntity m \<circ> entity_id m) ?S = filter ?P ?S"
    by (rule filter_cong) (simp_all add: set_sortByAll getFullEntity_entity_id [OF assms])
  also have "filter ?P ?S = filter ?P (getFullEntities m)"
    by (rule stable_sortByAll)
  also have "filter ?P (getFullEntities m) =
             map (getFullEntity m) (filter (?P \<circ> getFullEntity m) (getIdArray m))"
    by (simp add: getFullEntities_def filter_map)
  also have "map (entity_id m) (map (getFullEntity m) (filter (?P \<circ> getFullEntity m) (getIdArray m))) =
             filter (?P \<circ> getFullEntity m) (getIdArray m)"
    using assms
    by (intro map_entity_id_getFullEntity) (simp add: full_entities_keep_id_def list_all_iff)
  finally show ?thesis
    by (simp add: comp comp_def)
qed

section \<open>Unfolding \<open>reduce\<close>\<close>

lemma reduce_single: "mutations m = [a] \<Longrightarrow> reduce m = reduce_step m (getEntityTree m) a"
  by (simp add: reduce_def)

lemma reduce_snoc:
  "mutations m = earlier @ [a] \<Longrightarrow>
   reduce m = reduce_step m (foldl (reduce_step m) (getEntityTree m) earlier) a"
  by (simp add: reduce_def)

section \<open>Id allocation on a non-empty id array\<close>

lemma foldl_js_max_Fin:
  "foldl js_max (Fin a) (map Fin ns) = Fin (Max (insert a (set ns)))"
proof (induction ns arbitrary: a)
  case Nil
  then show ?case by simp
next
  case (Cons n ns)
  have "js_max (Fin a) (Fin n) = Fin (max a n)"
    by (simp add: js_max_def max_def)
  moreover have "Max (insert (max a n) (set ns)) = Max (insert a (insert n (set ns)))"
    by (cases "set ns = {}") (simp_all add: max.assoc)
  ultimately show ?case
    using Cons.IH [of "max a n"] by simp
qed

lemma nextId_nonempty:
  assumes "getIdArray m = map Fin (n # ns)"
    and "- 9007199254740992 \<le> Max (set (n # ns))" and "Max (set (n # ns)) < 9007199254740992"
  shows "nextId m = Fin (Max (set (n # ns)) + 1)"
proof -
  have "js_max NegInfinity (Fin n) = Fin n"
    by (simp add: js_max_def)
  then have "Math_max (map Fin (n # ns)) = Fin (Max (set (n # ns)))"
    by (simp add: Math_max_def foldl_js_max_Fin)
  then show ?thesis
    using assms(2,3) by (simp only: nextId_def assms(1) plus_one.simps if_True simp_thms)
qed

text \<open>At \<open>2^53\<close> the sum rounds: the id allocated is the largest id itself.\<close>

lemma nextId_rounds:
  assumes "getIdArray m = [Fin 9007199254740992]"
  shows "nextId m = Fin 9007199254740992"
  by (simp add: nextId_def assms Math_max_def js_max_def)

section \<open>Creates in one session\<close>

text \<open>
  Claim C1: when N creates (N at least 2) are queued and \<open>reduce()\<close> is called once, the
  N allocated ids are distinct and consecutive, each computed against the running state
  of the fold. The code does not do this: \<open>nextId\<close> reads the id array of the manager's
  own tree, so every CREATE of one fold receives the same id. On the branch with the
  single id 1, two creates give the id array 1, 2, 2, and the second payload replaces the
  first under the key 2.
\<close>

theorem two_creates_share_one_id:
  "reduce two_creates =
     \<lparr>idArr = [Fin 1, Fin 2, Fin 2],
      entityMap = [Fin 1 \<mapsto> [''a'' \<mapsto> Fin 0], Fin 2 \<mapsto> [''a'' \<mapsto> Fin 2]]\<rparr>"
  by (simp add: two_creates_def example_defs eval_defs)

section \<open>Create on the empty branch\<close>

text \<open>
  Claim C2: id allocation returns one more than the largest id present, and a finite
  origin value when the id sequence is empty, so that a create on the empty branch
  reduces to the id sequence holding the origin alone. On a non-empty array the code
  returns the maximum plus one (\<open>nextId_nonempty\<close>). On the empty array it does not
  return a finite value: \<open>Math.max()\<close> is \<open>-Infinity\<close>, and so is the id allocated.
\<close>

theorem first_create_allocates_NegInfinity:
  "nextId (EntityManager empty_branch ''id'') = NegInfinity \<and>
   reduce first_create =
     \<lparr>idArr = [NegInfinity], entityMap = [NegInfinity \<mapsto> [''a'' \<mapsto> Fin 1]]\<rparr>"
  by (simp add: first_create_def example_defs eval_defs)

section \<open>Update of an id the map does not hold\<close>

text \<open>
  Claim C3: an Update record leaves the state unchanged for every listed id that is
  absent from the attributes map of the running state: no entry is created for it. The
  code does not skip such an id: \<open>mapper(entityMap[_id])\<close> is computed from
  \<open>undefined\<close> and stored. After the entity 1 is deleted and then updated with the
  patch \<open>{a: 9}\<close> in one session, the map of the running state has no entry for 1 when
  the UPDATE is applied, the reduced map holds the patch under 1, and the id array does
  not hold 1.
\<close>

theorem update_creates_absent_entry:
  "entityMap (foldl (reduce_step delete_then_update) (getEntityTree delete_then_update)
      [DELETE [Fin 1]]) (Fin 1) = None \<and>
   mutations delete_then_update = [DELETE [Fin 1], UPDATE [Fin 1] (MergePatch [''a'' \<mapsto> Fin 9])] \<and>
   entityMap (reduce delete_then_update) (Fin 1) = Some [''a'' \<mapsto> Fin 9] \<and>
   idArr (reduce delete_then_update) = [Fin 2]"
  by (simp add: delete_then_update_def example_defs eval_defs)

section \<open>The invariant under the fold\<close>

text \<open>
  Claim C4: the invariant (the keys of the attributes map are the elements of the id
  sequence, without duplicates) is kept by every step of the fold, from every branch that
  satisfies it and for every log. The code does not keep it: the branch with the single
  id 1 satisfies the invariant, and after two creates the reduced id array holds the id 2
  twice.
\<close>

theorem two_creates_break_invariant:
  "invariant (getEntityTree create_create) \<and> \<not> invariant (reduce create_create)"
  by (simp add: create_create_def session_def invariant_def example_defs eval_defs)

section \<open>A single reorder\<close>

text \<open>
  Claim C5 says that, for every branch state, a single Reorder record queued by
  \<open>setOrder(sortKeys)\<close> and reduced leaves the attributes map as it was and replaces the
  id sequence by a permutation of itself. The permutation fails where a stored attribute
  record holds the id attribute with another value: the full entity is built by writing
  the attributes over the id, and the ORDER case projects the id attribute back. On the
  branch that \<open>create({id: 1, a: 2})\<close> and \<open>reduce()\<close> return, with the ids 1 and 2, a
  reorder by \<open>a\<close> gives the id sequence 1, 1.
\<close>

theorem order_then_reduce_counterexample:
  "idArr carried_id_branch = [Fin 1, Fin 2] \<and>
   idArr (reduce (setOrder (EntityManager carried_id_branch ''id'') [''a''])) = [Fin 1, Fin 1] \<and>
   mset (idArr (reduce (setOrder (EntityManager carried_id_branch ''id'') [''a''])))
     \<noteq> mset (idArr carried_id_branch)"
proof -
  have b: "carried_id_branch =
             \<lparr>idArr = [Fin 1, Fin 2],
              entityMap = [Fin 1 \<mapsto> [''a'' \<mapsto> Fin 0],
                           Fin 2 \<mapsto> [''id'' \<mapsto> Fin 1, ''a'' \<mapsto> Fin 2]]\<rparr>"
    by (simp add: carried_id_branch_def example_defs eval_defs)
  have "idArr (reduce (setOrder (EntityManager carried_id_branch ''id'') [''a''])) = [Fin 1, Fin 1]"
    unfolding b by (simp add: eval_defs map_add_def)
  then show ?thesis
    unfolding b by simp
qed

text \<open>
  Claim C5 as amended: a single Reorder record queued by \<open>setOrder(sortKeys)\<close> and reduced
  leaves the attributes map as it was and sets the id sequence to the id attributes of
  the full entities sorted by the sort keys. Where the full entity of every id of the
  sequence reads that id under the id attribute, the new sequence is a permutation of
  the old one, ascending (no id is followed by one with smaller criteria) and stable (the
  ids of equal criteria keep their order).
\<close>

theorem order_then_reduce:
  assumes "mutations m = [ORDER props]"
  shows "entityMap (reduce m) = getEntityMap m \<and>
         idArr (reduce m) = map (entity_id m) (sortByAll (getFullEntities m) props) \<and>
         (full_entities_keep_id m \<longrightarrow>
            mset (idArr (reduce m)) = mset (getIdArray m) \<and>
            sorted_wrt (\<lambda>i j. \<not> criteria_less (sort_criteria m props j) (sort_criteria m props i))
              (idArr (reduce m)) \<and>
            (\<forall>k. filter (\<lambda>i. sort_criteria m props i = k) (idArr (reduce m)) =
                  filter (\<lambda>i. sort_criteria m props i = k) (getIdArray m)))"
proof -
  have ids: "idArr (reduce m) = reduceIdArray m (getIdArray m) (ORDER props)"
    by (simp add: reduce_single [OF assms] reduce_step_def getIdArray_def)
  have "entityMap (reduce m) = getEntityMap m"
    by (simp add: reduce_single [OF assms] reduce_step_def getEntityMap_def)
  moreover have "idArr (reduce m) = map (entity_id m) (sortByAll (getFullEntities m) props)"
    by (simp add: ids)
  moreover have "mset (idArr (reduce m)) = mset (getIdArray m)" if "full_entities_keep_id m"
    by (simp only: ids order_ids_mset [OF that])
  moreover have "sorted_wrt (\<lambda>i j. \<not> criteria_less (sort_criteria m props j) (sort_criteria m props i))
           (idArr (reduce m))" if "full_entities_keep_id m"
    by (simp only: ids order_ids_sorted [OF that])
  moreover have "filter (\<lambda>i. sort_criteria m props i = k) (idArr (reduce m)) =
               filter (\<lambda>i. sort_criteria m props i = k) (getIdArray m)"
    if "full_entities_keep_id m" for k
    by (simp only: ids order_ids_stable [OF that])
  ultimately show ?thesis by blast
qed

text \<open>
  On the shelf, ordered by \<open>a\<close>: the entity 2 (a = 3) comes first, the entities 1 and 3
  (a = 5 both) keep their order.
\<close>

theorem order_then_reduce_witness:
  "mutations (setOrder (EntityManager shelf ''id'') [''a'']) = [ORDER [''a'']] \<and>
   full_entities_keep_id (setOrder (EntityManager shelf ''id'') [''a'']) \<and>
   idArr (reduce (setOrder (EntityManager shelf ''id'') [''a''])) = [Fin 2, Fin 1, Fin 3] \<and>
   entityMap (reduce (setOrder (EntityManager shelf ''id'') [''a''])) = entityMap shelf \<and>
   mset (idArr (reduce (setOrder (EntityManager shelf ''id'') [''a'']))) = mset (idArr shelf)"
proof -
  let ?m = "setOrder (EntityManager shelf ''id'') [''a'']"
  have h1: "mutations ?m = [ORDER [''a'']]"
    by (simp add: setOrder_def EntityManager_def)
  have h2: "full_entities_keep_id ?m"
    by (simp add: full_entities_keep_id_def shelf_def eval_defs)
  have ids: "idArr (reduce ?m) = [Fin 2, Fin 1, Fin 3]"
    by (simp add: shelf_def eval_defs map_add_def)
  have t: "entityMap (reduce ?m) = getEntityMap ?m \<and>
           mset (idArr (reduce ?m)) = mset (getIdArray ?m)"
    using order_then_reduce [OF h1] h2 by blast
  have g1: "getEntityMap ?m = entityMap shelf"
    by (simp add: eval_defs)
  have g2: "getIdArray ?m = idArr shelf"
    by (simp add: eval_defs)
  show ?thesis
    using h1 h2 ids t unfolding g1 g2 by blast
qed

section \<open>A reorder after other records\<close>

text \<open>
  Claim C6 says that the id sequence after a Reorder step is always a permutation of the
  id sequence of the original branch. It is computed from the original branch, but it is
  not always a permutation of its ids: where the entity 1 of the original branch stores
  the id attribute 7, the reorder by \<open>a\<close> that follows a delete of 2 gives the id
  sequence 2, 7 for the original ids 1, 2.
\<close>

theorem order_ignores_running_state_counterexample:
  "getIdArray relabelled = [Fin 1, Fin 2] \<and>
   idArr (reduce relabelled) = [Fin 2, Fin 7] \<and>
   mset (idArr (reduce relabelled)) \<noteq> mset (getIdArray relabelled)"
proof -
  have g: "getIdArray relabelled = [Fin 1, Fin 2]"
    by (simp add: relabelled_def eval_defs)
  have r: "idArr (reduce relabelled) = [Fin 2, Fin 7]"
    by (simp add: relabelled_def eval_defs map_add_def)
  show ?thesis
    unfolding g r by simp
qed

text \<open>
  Claim C6 as amended: a Reorder record is reduced from the full entities of the original
  branch of the manager, not from the running state: whatever records come before it in
  the log, the id sequence after the Reorder step is the projection of the sorted full
  entities of the original branch. Where the full entity of every id of the original
  sequence reads that id under the id attribute, it is a permutation of the original id
  sequence (so that ids deleted earlier in the log are back and ids created earlier are
  gone).
\<close>

theorem order_ignores_running_state:
  assumes "mutations m = earlier @ [ORDER props]"
  shows "idArr (reduce m) = map (entity_id m) (sortByAll (getFullEntities m) props) \<and>
         (full_entities_keep_id m \<longrightarrow> mset (idArr (reduce m)) = mset (getIdArray m))"
proof -
  have ids: "idArr (reduce m) =
             reduceIdArray m (idArr (foldl (reduce_step m) (getEntityTree m) earlier)) (ORDER props)"
    by (simp add: reduce_snoc [OF assms] reduce_step_def)
  have "mset (idArr (reduce m)) = mset (getIdArray m)" if "full_entities_keep_id m"
    by (simp only: ids order_ids_mset [OF that])
  with ids show ?thesis by simp
qed

text \<open>
  On the shelf, a create and the delete of 1 give the running ids 2, 3, 4; the reorder
  that follows gives 2, 1, 3: the deleted 1 is back and the created 4 is gone.
\<close>

theorem order_ignores_running_state_witness:
  "mutations reshuffled = [CREATE [''a'' \<mapsto> Fin 0], DELETE [Fin 1]] @ [ORDER [''a'']] \<and>
   full_entities_keep_id reshuffled \<and>
   idArr (foldl (reduce_step reshuffled) (tree reshuffled) [CREATE [''a'' \<mapsto> Fin 0], DELETE [Fin 1]])
     = [Fin 2, Fin 3, Fin 4] \<and>
   idArr (reduce reshuffled) = [Fin 2, Fin 1, Fin 3] \<and>
   mset (idArr (reduce reshuffled)) = mset (idArr shelf)"
proof -
  have h1: "mutations reshuffled = [CREATE [''a'' \<mapsto> Fin 0], DELETE [Fin 1]] @ [ORDER [''a'']]"
    by (simp add: reshuffled_def)
  have h2: "full_entities_keep_id reshuffled"
    by (simp add: full_entities_keep_id_def reshuffled_def shelf_def eval_defs)
  have e: "map (entity_id reshuffled) (sortByAll (getFullEntities reshuffled) [''a'']) = [Fin 2, Fin 1, Fin 3]"
    by (simp add: reshuffled_def shelf_def eval_defs map_add_def)
  have r: "idArr (foldl (reduce_step reshuffled) (tree reshuffled) [CREATE [''a'' \<mapsto> Fin 0], DELETE [Fin 1]])
     = [Fin 2, Fin 3, Fin 4]"
    by (simp add: reshuffled_def shelf_def eval_defs)
  have g: "getIdArray reshuffled = idArr shelf"
    by (simp add: reshuffled_def getIdArray_def getEntityTree_def)
  show ?thesis
    using h1 h2 r order_ignores_running_state [OF h1] unfolding e g by blast
qed

section \<open>\<open>get\<close> on the empty store\<close>

text \<open>
  Claim C7: on a manager whose id sequence is empty, \<open>get(lookup)\<close> fails with
  EmptyStoreError for every lookup, never with EntityNotFoundError: the check comes
  before any matching.
\<close>

theorem get_empty_store:
  assumes "getIdArray m = []"
  shows "get m lookupObj = Inl EmptyStoreError"
  using assms by (simp add: get_def exists_def)

text \<open>On the empty branch, with a lookup by attribute and a lookup by id.\<close>

theorem get_empty_store_witness:
  "getIdArray (EntityManager \<lparr>idArr = [], entityMap = Map.empty\<rparr> ''id'') = [] \<and>
   get (EntityManager \<lparr>idArr = [], entityMap = Map.empty\<rparr> ''id'') [''a'' \<mapsto> Fin 1]
     = Inl EmptyStoreError \<and>
   get (EntityManager \<lparr>idArr = [], entityMap = Map.empty\<rparr> ''id'') [''id'' \<mapsto> Fin 1]
     = Inl EmptyStoreError"
proof -
  let ?m = "EntityManager \<lparr>idArr = [], entityMap = Map.empty\<rparr> ''id''"
  have h: "getIdArray ?m = []"
    by (simp add: EntityManager_def getIdArray_def getEntityTree_def)
  show ?thesis
    using h get_empty_store [OF h, of "[''a'' \<mapsto> Fin 1]"]
      get_empty_store [OF h, of "[''id'' \<mapsto> Fin 1]"]
    by blast
qed

section \<open>\<open>get\<close> by id\<close>



section \<open>Merge-patch update\<close>

lemma updatedMap_single: "updatedMap u em [i] = [i \<mapsto> mapper u (em i)]"
  by (simp add: updatedMap_def)

text \<open>
  Claim C9: an Update with a merge patch scoped to one id present in the branch, then
  \<open>reduce()\<close>, gives that id its attributes with the keys of the patch overwritten and
  every other key untouched (\<open>{a:1,b:2}\<close> patched by \<open>{a:9}\<close> is \<open>{a:9,b:2}\<close>), and
  leaves the attributes of every other id unchanged.
\<close>

theorem merge_patch_update:
  assumes "mutations m = [UPDATE [i] (MergePatch patch)]" and "getEntityMap m i = Some attrs"
  shows "entityMap (reduce m) i =
           Some (\<lambda>k. case patch k of Some v \<Rightarrow> Some v | None \<Rightarrow> attrs k) \<and>
         (\<forall>j. j \<noteq> i \<longrightarrow> entityMap (reduce m) j = getEntityMap m j) \<and>
         idArr (reduce m) = getIdArray m"
proof -
  have em: "entityMap (reduce m) = getEntityMap m ++ [i \<mapsto> own_fields (getEntityMap m i) ++ patch]"
    by (simp add: reduce_single [OF assms(1)] reduce_step_def updatedMap_single getEntityMap_def)
  have "attrs ++ patch = (\<lambda>k. case patch k of Some v \<Rightarrow> Some v | None \<Rightarrow> attrs k)"
    by (simp add: map_add_def fun_eq_iff split: option.split)
  then have "entityMap (reduce m) i =
           Some (\<lambda>k. case patch k of Some v \<Rightarrow> Some v | None \<Rightarrow> attrs k)"
    by (simp add: em assms(2) own_fields_def)
  moreover have "entityMap (reduce m) j = getEntityMap m j" if "j \<noteq> i" for j
    using that by (simp add: em map_add_def)
  moreover have "idArr (reduce m) = getIdArray m"
    by (simp add: reduce_single [OF assms(1)] reduce_step_def getIdArray_def)
  ultimately show ?thesis by blast
qed

text \<open>The entity 1 with \<open>{a:1,b:2}\<close> patched by \<open>{a:9}\<close>; the entity 2 keeps \<open>{a:4,b:5}\<close>.\<close>

theorem merge_patch_update_witness:
  "mutations (QuerySet_update (EntityManager pair_branch ''id'') [Fin 1] (MergePatch [''a'' \<mapsto> Fin 9]))
     = [UPDATE [Fin 1] (MergePatch [''a'' \<mapsto> Fin 9])] \<and>
   getEntityMap (QuerySet_update (EntityManager pair_branch ''id'') [Fin 1] (MergePatch [''a'' \<mapsto> Fin 9]))
     (Fin 1) = Some [''a'' \<mapsto> Fin 1, ''b'' \<mapsto> Fin 2] \<and>
   entityMap (reduce (QuerySet_update (EntityManager pair_branch ''id'') [Fin 1]
       (MergePatch [''a'' \<mapsto> Fin 9]))) (Fin 1) = Some [''a'' \<mapsto> Fin 9, ''b'' \<mapsto> Fin 2] \<and>
   entityMap (reduce (QuerySet_update (EntityManager pair_branch ''id'') [Fin 1]
       (MergePatch [''a'' \<mapsto> Fin 9]))) (Fin 2) = Some [''a'' \<mapsto> Fin 4, ''b'' \<mapsto> Fin 5]"
proof -
  let ?m = "QuerySet_update (EntityManager pair_branch ''id'') [Fin 1] (MergePatch [''a'' \<mapsto> Fin 9])"
  have h1: "mutations ?m = [UPDATE [Fin 1] (MergePatch [''a'' \<mapsto> Fin 9])]"
    by (simp add: eval_defs)
  have h2: "getEntityMap ?m (Fin 1) = Some [''a'' \<mapsto> Fin 1, ''b'' \<mapsto> Fin 2]"
    by (simp add: pair_branch_def eval_defs)
  have g: "getEntityMap ?m (Fin 2) = Some [''a'' \<mapsto> Fin 4, ''b'' \<mapsto> Fin 5]"
    by (simp add: pair_branch_def eval_defs)
  have p: "(\<lambda>k. case [''a'' \<mapsto> Fin 9] k of Some v \<Rightarrow> Some v
             | None \<Rightarrow> [''a'' \<mapsto> Fin 1, ''b'' \<mapsto> Fin 2] k) = [''a'' \<mapsto> Fin 9, ''b'' \<mapsto> Fin 2]"
    by (simp add: fun_eq_iff)
  have t: "entityMap (reduce ?m) (Fin 1) = Some [''a'' \<mapsto> Fin 9, ''b'' \<mapsto> Fin 2] \<and>
           (\<forall>j. j \<noteq> Fin 1 \<longrightarrow> entityMap (reduce ?m) j = getEntityMap ?m j)"
    using merge_patch_update [OF h1 h2] unfolding p by blast
  then have "entityMap (reduce ?m) (Fin 2) = Some [''a'' \<mapsto> Fin 4, ''b'' \<mapsto> Fin 5]"
    using g by simp
  with h1 h2 t show ?thesis by blast
qed

section \<open>Writes are recorded, not applied\<close>

lemma perform_frame:
  "tree (perform m c) = tree m \<and> idAttribute (perform m c) = idAttribute m \<and>
   mutations (perform m c) = mutations m @ [recorded m c]"
  by (cases c)
    (simp_all add: create_def setOrder_def update_def delete_def QuerySet_update_def
      QuerySet_delete_def)

lemma recorded_cong: "tree m' = tree m \<Longrightarrow> recorded m' c = recorded m c"
  by (cases c) (simp_all add: getIdArray_def getEntityTree_def)

lemma session_frame:
  "tree (session m calls) = tree m \<and> idAttribute (session m calls) = idAttribute m \<and>
   mutations (session m calls) = mutations m @ map (recorded m) calls"
proof (induction calls arbitrary: m)
  case Nil
  then show ?case by (simp add: session_def)
next
  case (Cons c calls)
  let ?m' = "perform m c"
  have s: "session m (c # calls) = session ?m' calls"
    by (simp add: session_def)
  have t: "tree ?m' = tree m" and a: "idAttribute ?m' = idAttribute m"
    and l: "mutations ?m' = mutations m @ [recorded m c]"
    using perform_frame [of m c] by blast+
  have r: "map (recorded ?m') calls = map (recorded m) calls"
    by (simp add: recorded_cong [OF t])
  from Cons.IH [of ?m'] show ?case
    unfolding s t a l r by simp
qed

lemma reads_depend_on_tree:
  assumes "tree m' = tree m" and "idAttribute m' = idAttribute m"
  shows "getEntityTree m' = getEntityTree m" and "getIdArray m' = getIdArray m"
    and "getEntityMap m' = getEntityMap m" and "getFullEntity m' = getFullEntity m"
    and "getFullEntities m' = getFullEntities m" and "exists m' = exists m"
    and "get m' = get m"
proof -
  show t: "getEntityTree m' = getEntityTree m"
    using assms by (simp add: getEntityTree_def)
  show ids: "getIdArray m' = getIdArray m"
    by (simp add: getIdArray_def t)
  show em: "getEntityMap m' = getEntityMap m"
    by (simp add: getEntityMap_def t)
  have a: "getIdAttribute m' = getIdAttribute m"
    using assms by (simp add: getIdAttribute_def)
  show fe: "getFullEntity m' = getFullEntity m"
    by (simp add: fun_eq_iff getFullEntity_def em a)
  show fes: "getFullEntities m' = getFullEntities m"
    by (simp add: getFullEntities_def fe ids)
  show ex: "exists m' = exists m"
    by (simp add: exists_def ids)
  show "get m' = get m"
    by (rule ext) (simp add: get_def ex a fe fes cong: option.case_cong)
qed

text \<open>
  Claim C10: every sequence of write calls in a session leaves the branch of the manager
  unchanged: each call only appends its record to the mutation log, and every read made
  afterwards (\<open>getEntityTree\<close>, \<open>getIdArray\<close>, \<open>getEntityMap\<close>, \<open>getFullEntity\<close>,
  \<open>getFullEntities\<close>, \<open>exists\<close>, \<open>get\<close>) returns what it returned before the calls.
\<close>

theorem writes_only_append:
  "getEntityTree (session m calls) = getEntityTree m \<and>
   mutations (session m calls) = mutations m @ map (recorded m) calls \<and>
   getIdArray (session m calls) = getIdArray m \<and>
   getEntityMap (session m calls) = getEntityMap m \<and>
   getFullEntity (session m calls) i = getFullEntity m i \<and>
   getFullEntities (session m calls) = getFullEntities m \<and>
   exists (session m calls) = exists m \<and>
   get (session m calls) lookupObj = get m lookupObj"
proof -
  have t: "tree (session m calls) = tree m" and a: "idAttribute (session m calls) = idAttribute m"
    using session_frame [of m calls] by simp_all
  show ?thesis
    using session_frame [of m calls] reads_depend_on_tree [OF t a] by simp
qed

text \<open>On the shelf, after a create, a delete of everything and a reorder.\<close>

theorem writes_only_append_witness:
  "getIdArray (session (EntityManager shelf ''id'')
      [Call_create [''a'' \<mapsto> Fin 0], Call_delete, Call_setOrder [''a'']]) = [Fin 1, Fin 2, Fin 3] \<and>
   get (session (EntityManager shelf ''id'')
      [Call_create [''a'' \<mapsto> Fin 0], Call_delete, Call_setOrder [''a'']]) [''a'' \<mapsto> Fin 3]
     = Inr (Entity [''id'' \<mapsto> Fin 2, ''a'' \<mapsto> Fin 3])"
proof -
  let ?m = "EntityManager shelf ''id''"
  let ?cs = "[Call_create [''a'' \<mapsto> Fin 0], Call_delete, Call_setOrder [''a'']]"
  have g1: "getIdArray ?m = [Fin 1, Fin 2, Fin 3]"
    by (simp add: shelf_def eval_defs)
  have g2: "get ?m [''a'' \<mapsto> Fin 3] = Inr (Entity [''id'' \<mapsto> Fin 2, ''a'' \<mapsto> Fin 3])"
    by (simp add: get_def exists_def match_def shelf_def eval_defs)
  note t = writes_only_append [of ?m ?cs "Fin 1" "[''a'' \<mapsto> Fin 3]"]
  have "getIdArray (session ?m ?cs) = getIdArray ?m"
    using t by (elim conjE)
  moreover have "get (session ?m ?cs) [''a'' \<mapsto> Fin 3] = get ?m [''a'' \<mapsto> Fin 3]"
    using t by (elim conjE)
  ultimately show ?thesis
    by (simp only: g1 g2)
qed

end
